theory Spec2Isabelle
  imports Main "HOL-Library.Sublist"
begin

section \<open>Data model of \<open>agentforge_example.py\<close>\<close>

text \<open>
  The four string enums of the source, each with the string value of its members. Two
  of them have a member \<open>DEPRECATED\<close>; the qualified name tells them apart.
\<close>

datatype ProjectStatus = ACTIVE | MAINTENANCE | DEPRECATED | ARCHIVED

fun ProjectStatus_value :: "ProjectStatus \<Rightarrow> string" where
  "ProjectStatus_value ACTIVE = ''active''"
| "ProjectStatus_value MAINTENANCE = ''maintenance''"
| "ProjectStatus_value ProjectStatus.DEPRECATED = ''deprecated''"
| "ProjectStatus_value ARCHIVED = ''archived''"

datatype FeatureStatus = PLANNED | IN_PROGRESS | COMPLETED | DEPRECATED

fun FeatureStatus_value :: "FeatureStatus \<Rightarrow> string" where
  "FeatureStatus_value PLANNED = ''planned''"
| "FeatureStatus_value IN_PROGRESS = ''in_progress''"
| "FeatureStatus_value COMPLETED = ''completed''"
| "FeatureStatus_value FeatureStatus.DEPRECATED = ''deprecated''"

datatype Priority = CRITICAL | HIGH | MEDIUM | LOW

fun Priority_value :: "Priority \<Rightarrow> string" where
  "Priority_value CRITICAL = ''critical''"
| "Priority_value HIGH = ''high''"
| "Priority_value MEDIUM = ''medium''"
| "Priority_value LOW = ''low''"

datatype ComponentType = SERVICE | MODULE | LIBRARY | PACKAGE | PLUGIN

fun ComponentType_value :: "ComponentType \<Rightarrow> string" where
  "ComponentType_value SERVICE = ''service''"
| "ComponentType_value MODULE = ''module''"
| "ComponentType_value LIBRARY = ''library''"
| "ComponentType_value PACKAGE = ''package''"
| "ComponentType_value PLUGIN = ''plugin''"

text \<open>
  The three pydantic models. A field typed \<open>Optional[T] = None\<close> is a \<open>T option\<close>;
  \<open>status\<close> and \<open>dependencies\<close> are not optional in the class, they only have defaults.
  Strings are byte lists; Python compares strings by exact equality, and so does \<open>=\<close> here.
\<close>

record SoftwareProject =
  name :: string
  repo_url :: "string option"
  language :: "string option"
  framework :: "string option"
  version :: "string option"
  status :: ProjectStatus
  description :: "string option"
  license :: "string option"

record Feature =
  name :: string
  status :: FeatureStatus
  priority :: "Priority option"
  release_version :: "string option"
  description :: "string option"

record Component =
  name :: string
  type :: "ComponentType option"
  path :: "string option"
  language :: "string option"
  dependencies :: "string list"
  description :: "string option"

subsection \<open>Construction with defaults\<close>

text \<open>
  A constructor call passes \<open>name\<close> and any subset of the other fields as keywords. An
  argument that the call leaves out is \<open>None\<close> here; the class body then supplies the
  default: \<open>None\<close> for the optional fields, \<open>ProjectStatus.ACTIVE\<close>,
  \<open>FeatureStatus.PLANNED\<close>, and a fresh empty list from \<open>Field(default_factory=list)\<close>.
\<close>

definition new_SoftwareProject ::
  "string \<Rightarrow> string option \<Rightarrow> string option \<Rightarrow> string option \<Rightarrow> string option \<Rightarrow>
   ProjectStatus option \<Rightarrow> string option \<Rightarrow> string option \<Rightarrow> SoftwareProject" where
  "new_SoftwareProject n repo lang fw ver st descr lic =
     \<lparr> SoftwareProject.name = n,
       SoftwareProject.repo_url = repo,
       SoftwareProject.language = lang,
       SoftwareProject.framework = fw,
       SoftwareProject.version = ver,
       SoftwareProject.status = (case st of None \<Rightarrow> ACTIVE | Some s \<Rightarrow> s),
       SoftwareProject.description = descr,
       SoftwareProject.license = lic \<rparr>"

definition new_Feature ::
  "string \<Rightarrow> FeatureStatus option \<Rightarrow> Priority option \<Rightarrow> string option \<Rightarrow> string option \<Rightarrow>
   Feature" where
  "new_Feature n st prio rel descr =
     \<lparr> Feature.name = n,
       Feature.status = (case st of None \<Rightarrow> PLANNED | Some s \<Rightarrow> s),
       Feature.priority = prio,
       Feature.release_version = rel,
       Feature.description = descr \<rparr>"

definition new_Component ::
  "string \<Rightarrow> ComponentType option \<Rightarrow> string option \<Rightarrow> string option \<Rightarrow>
   string list option \<Rightarrow> string option \<Rightarrow> Component" where
  "new_Component n ty p lang deps descr =
     \<lparr> Component.name = n,
       Component.type = ty,
       Component.path = p,
       Component.language = lang,
       Component.dependencies = (case deps of None \<Rightarrow> [] | Some ds \<Rightarrow> ds),
       Component.description = descr \<rparr>"

subsection \<open>\<open>model_dump(exclude_none=True)\<close>\<close>

text \<open>
  \<open>model_dump\<close> returns a dict from field name to field value, in field order; a dict
  value is a string, an enum member, a list of strings, or \<open>None\<close>. With
  \<open>exclude_none=True\<close> the fields whose value is \<open>None\<close> are left out.
\<close>

datatype mvalue =
    MNone
  | MStr string
  | MStrList "string list"
  | MProjectStatus ProjectStatus
  | MFeatureStatus FeatureStatus
  | MPriority Priority
  | MComponentType ComponentType

type_synonym metadata = "(string \<times> mvalue) list"

definition opt_value :: "('a \<Rightarrow> mvalue) \<Rightarrow> 'a option \<Rightarrow> mvalue" where
  "opt_value to_value v = (case v of None \<Rightarrow> MNone | Some x \<Rightarrow> to_value x)"

definition exclude_none :: "metadata \<Rightarrow> metadata" where
  "exclude_none d = filter (\<lambda>kv. snd kv \<noteq> MNone) d"

definition dump_SoftwareProject :: "SoftwareProject \<Rightarrow> metadata" where
  "dump_SoftwareProject p =
     [ (''name'', MStr (SoftwareProject.name p)),
       (''repo_url'', opt_value MStr (SoftwareProject.repo_url p)),
       (''language'', opt_value MStr (SoftwareProject.language p)),
       (''framework'', opt_value MStr (SoftwareProject.framework p)),
       (''version'', opt_value MStr (SoftwareProject.version p)),
       (''status'', MProjectStatus (SoftwareProject.status p)),
       (''description'', opt_value MStr (SoftwareProject.description p)),
       (''license'', opt_value MStr (SoftwareProject.license p)) ]"

definition dump_Feature :: "Feature \<Rightarrow> metadata" where
  "dump_Feature f =
     [ (''name'', MStr (Feature.name f)),
       (''status'', MFeatureStatus (Feature.status f)),
       (''priority'', opt_value MPriority (Feature.priority f)),
       (''release_version'', opt_value MStr (Feature.release_version f)),
       (''description'', opt_value MStr (Feature.description f)) ]"

definition dump_Component :: "Component \<Rightarrow> metadata" where
  "dump_Component c =
     [ (''name'', MStr (Component.name c)),
       (''type'', opt_value MComponentType (Component.type c)),
       (''path'', opt_value MStr (Component.path c)),
       (''language'', opt_value MStr (Component.language c)),
       (''dependencies'', MStrList (Component.dependencies c)),
       (''description'', opt_value MStr (Component.description c)) ]"

section \<open>The graph client and awaited calls\<close>

text \<open>
  The client \<open>graphiti\<close> is external. One call on it is a value of \<open>call\<close>, with the
  keyword arguments in the order the source writes them:
  \<open>add_entity(name, entity_type, summary, metadata)\<close> and
  \<open>add_relationship(source_entity, target_entity, relationship_type, fact)\<close>.
  The client maps a call and the store it holds to the store afterwards and, when the call
  raises, the exception.
\<close>

datatype call =
    AddEntity string string "string option" metadata
  | AddRelationship string string string string

type_synonym ('s, 'e) graphiti = "call \<Rightarrow> 's \<Rightarrow> 's \<times> 'e option"

text \<open>
  \<open>print\<close> writes to \<open>sys.stdout\<close>, which is external too: given the lines written so far
  and the line to write, it tells the exception that writing raises, if any (for one,
  \<open>UnicodeEncodeError\<close> when the stream cannot encode the line).
\<close>

type_synonym 'e stdout = "string list \<Rightarrow> string \<Rightarrow> 'e option"

text \<open>
  What a run can change: the external store, the console, and (as a record of the run) the
  calls awaited so far, oldest first. The stream behind the console is part of the world;
  no function of the source replaces it.
\<close>

record ('s, 'e) world =
  store :: 's
  issued :: "call list"
  console :: "string list"
  stdout :: "'e stdout"

text \<open>
  A coroutine body takes the world to the world it leaves and \<open>None\<close> when it returns,
  \<open>Some e\<close> when exception \<open>e\<close> leaves it. An awaited call is recorded when it is
  issued, whether it returns or raises. \<open>print\<close> appends one line to the console, or raises
  what the stream raises and writes nothing. No function of the source has a \<open>try\<close>, so an
  exception ends every enclosing body.
\<close>

type_synonym ('s, 'e) coroutine = "('s, 'e) world \<Rightarrow> ('s, 'e) world \<times> 'e option"

definition await :: "('s, 'e) graphiti \<Rightarrow> call \<Rightarrow> ('s, 'e) coroutine" where
  "await graphiti c w =
     (case graphiti c (store w) of
        (s', r) \<Rightarrow> (w\<lparr>store := s', issued := issued w @ [c]\<rparr>, r))"

definition print :: "string \<Rightarrow> ('s, 'e) coroutine" where
  "print line w =
     (case stdout w (console w) line of
        None \<Rightarrow> (w\<lparr>console := console w @ [line]\<rparr>, None)
      | Some e \<Rightarrow> (w, Some e))"

definition skip :: "('s, 'e) coroutine" where
  "skip w = (w, None)"

text \<open>Statement sequencing: the second statement runs only when the first returned.\<close>

definition then_do :: "('s, 'e) coroutine \<Rightarrow> ('s, 'e) coroutine \<Rightarrow> ('s, 'e) coroutine" where
  "then_do m k w = (case m w of (w', None) \<Rightarrow> k w' | (w', Some e) \<Rightarrow> (w', Some e))"

text \<open>A \<open>for\<close> loop over a list, with no \<open>break\<close> and no \<open>try\<close> in its body.\<close>

fun for_each :: "('a \<Rightarrow> ('s, 'e) coroutine) \<Rightarrow> 'a list \<Rightarrow> ('s, 'e) coroutine" where
  "for_each body [] = skip"
| "for_each body (x # xs) = then_do (body x) (for_each body xs)"

subsection \<open>Console glyphs\<close>

text \<open>The non-ASCII prefixes of the printed lines, as the bytes of the source file.\<close>

definition glyph_added :: string where
  "glyph_added = [CHR 0xE2, CHR 0x80, CHR 0x9A, CHR 0xC3, CHR 0xBA, CHR 0xC3, CHR 0x96]"

definition glyph_link :: string where
  "glyph_link =
     [CHR 0xEF, CHR 0xA3, CHR 0xBF, CHR 0xC3, CHR 0xBC, CHR 0xC3, CHR 0xAE, CHR 0xC3, CHR 0xB3]"

definition glyph_arrow :: string where
  "glyph_arrow = [CHR 0xE2, CHR 0x80, CHR 0x9A, CHR 0xC3, CHR 0x9C, CHR 0xC3, CHR 0xAD]"

section \<open>Functions to populate the graph\<close>

definition populate_project :: "('s, 'e) graphiti \<Rightarrow> SoftwareProject \<Rightarrow> ('s, 'e) coroutine" where
  "populate_project graphiti project =
     then_do
       (await graphiti
          (AddEntity (SoftwareProject.name project) ''software_project''
             (SoftwareProject.description project)
             (exclude_none (dump_SoftwareProject project))))
       (print (glyph_added @ '' Added project: '' @ SoftwareProject.name project))"

definition populate_features ::
  "('s, 'e) graphiti \<Rightarrow> string \<Rightarrow> Feature list \<Rightarrow> ('s, 'e) coroutine" where
  "populate_features graphiti project_name features =
     for_each (\<lambda>feature.
       then_do
         (await graphiti
            (AddEntity (Feature.name feature) ''feature'' (Feature.description feature)
               (exclude_none (dump_Feature feature))))
      (then_do
         (await graphiti
            (AddRelationship project_name (Feature.name feature) ''has_feature''
               (project_name @ '' includes the '' @ Feature.name feature @ '' feature'')))
         (print (''  '' @ glyph_added @ '' Added feature: '' @ Feature.name feature))))
       features"

definition populate_components ::
  "('s, 'e) graphiti \<Rightarrow> string \<Rightarrow> Component list \<Rightarrow> ('s, 'e) coroutine" where
  "populate_components graphiti project_name components =
     for_each (\<lambda>component.
       then_do
         (await graphiti
            (AddEntity (Component.name component) ''component''
               (Component.description component)
               (exclude_none (dump_Component component))))
      (then_do
         (await graphiti
            (AddRelationship project_name (Component.name component) ''has_component''
               (project_name @ '' contains the '' @ Component.name component @ '' component'')))
         (print (''  '' @ glyph_added @ '' Added component: '' @ Component.name component))))
       components"

definition add_component_dependencies ::
  "('s, 'e) graphiti \<Rightarrow> Component list \<Rightarrow> ('s, 'e) coroutine" where
  "add_component_dependencies graphiti components =
     (let component_names = set (map Component.name components) in
      for_each (\<lambda>component.
        for_each (\<lambda>dep.
          if dep \<in> component_names then
            then_do
              (await graphiti
                 (AddRelationship (Component.name component) dep ''depends_on''
                    (Component.name component @ '' depends on '' @ dep)))
              (print (''  '' @ glyph_link @ '' '' @ Component.name component @ '' '' @
                      glyph_arrow @ '' depends_on '' @ glyph_arrow @ '' '' @ dep))
          else skip)
          (Component.dependencies component))
        components)"

text \<open>
  The population sequence that \<open>main\<close> documents in its closing comment: the project, its
  features, its components, then the dependencies among the same components, each awaited
  in turn, the features and components being linked to the name of that project.
\<close>

definition population_sequence ::
  "('s, 'e) graphiti \<Rightarrow> SoftwareProject \<Rightarrow> Feature list \<Rightarrow> Component list \<Rightarrow>
   ('s, 'e) coroutine" where
  "population_sequence graphiti project features components =
     then_do (populate_project graphiti project)
    (then_do (populate_features graphiti (SoftwareProject.name project) features)
    (then_do (populate_components graphiti (SoftwareProject.name project) components)
             (add_component_dependencies graphiti components)))"

section \<open>Observing a run\<close>

text \<open>A run starts with nothing awaited and nothing printed, on a given stream and store.\<close>

definition start :: "'e stdout \<Rightarrow> 's \<Rightarrow> ('s, 'e) world" where
  "start out s = \<lparr> store = s, issued = [], console = [], stdout = out \<rparr>"

text \<open>
  The store after a list of calls that all return; \<open>None\<close> when one of them raises.
\<close>

fun replay :: "('s, 'e) graphiti \<Rightarrow> call list \<Rightarrow> 's \<Rightarrow> 's option" where
  "replay g [] s = Some s"
| "replay g (c # cs) s = (case g c s of (s', None) \<Rightarrow> replay g cs s' | (s', Some e) \<Rightarrow> None)"

text \<open>Whether a list of lines can be printed one after the other on a console.\<close>

fun prints_return :: "'e stdout \<Rightarrow> string list \<Rightarrow> string list \<Rightarrow> bool" where
  "prints_return out con [] = True"
| "prints_return out con (l # ls) = (out con l = None \<and> prints_return out (con @ [l]) ls)"

text \<open>
  The \<open>depends_on\<close> edges among a list of calls, as pairs of source and target, and the
  edges that one dependency pass emits from a fresh world.
\<close>

fun depends_on_edges :: "call list \<Rightarrow> (string \<times> string) list" where
  "depends_on_edges [] = []"
| "depends_on_edges (AddRelationship a b rel txt # cs) =
     (if rel = ''depends_on'' then (a, b) # depends_on_edges cs else depends_on_edges cs)"
| "depends_on_edges (AddEntity n ty summ md # cs) = depends_on_edges cs"

definition emitted_edges ::
  "('s, 'e) graphiti \<Rightarrow> 'e stdout \<Rightarrow> Component list \<Rightarrow> 's \<Rightarrow> (string \<times> string) list" where
  "emitted_edges g out cs s =
     depends_on_edges (issued (fst (add_component_dependencies g cs (start out s))))"

text \<open>
  The edges in the words of the specification: components in input order, within each its
  dependency strings in list order, keeping a string when it is the name of a component.
\<close>

definition projected_edges :: "Component list \<Rightarrow> (string \<times> string) list" where
  "projected_edges cs =
     [(Component.name c, d). c \<leftarrow> cs, d \<leftarrow> Component.dependencies c,
        d \<in> set (map Component.name cs)]"

text \<open>The call and the console line that the dependency pass makes for one edge.\<close>

definition edge_call :: "string \<times> string \<Rightarrow> call" where
  "edge_call e = AddRelationship (fst e) (snd e) ''depends_on'' (fst e @ '' depends on '' @ snd e)"

definition edge_line :: "string \<times> string \<Rightarrow> string" where
  "edge_line e = ''  '' @ glyph_link @ '' '' @ fst e @ '' '' @
                      glyph_arrow @ '' depends_on '' @ glyph_arrow @ '' '' @ snd e"

fun is_depends_on :: "call \<Rightarrow> bool" where
  "is_depends_on (AddRelationship a b rel txt) = (rel = ''depends_on'')"
| "is_depends_on (AddEntity n ty summ md) = False"

text \<open>A call carries no \<open>None\<close> among the values of its metadata.\<close>

fun none_free :: "call \<Rightarrow> bool" where
  "none_free (AddEntity n ty summ md) = (MNone \<notin> snd ` set md)"
| "none_free (AddRelationship a b rel txt) = True"

text \<open>
  Entities before relationships: reading a list of calls from the oldest, with \<open>seen\<close> the
  names registered so far, both ends of every relationship are in \<open>seen\<close> when it is issued.
\<close>

fun registered_before :: "string set \<Rightarrow> call list \<Rightarrow> bool" where
  "registered_before seen [] = True"
| "registered_before seen (AddEntity n ty summ md # cs) = registered_before (insert n seen) cs"
| "registered_before seen (AddRelationship a b rel txt # cs) =
     (a \<in> seen \<and> b \<in> seen \<and> registered_before seen cs)"

fun entity_names :: "call list \<Rightarrow> string set" where
  "entity_names [] = {}"
| "entity_names (AddEntity n ty summ md # cs) = insert n (entity_names cs)"
| "entity_names (AddRelationship a b rel txt # cs) = entity_names cs"

subsection \<open>Straight-line scripts\<close>

text \<open>
  No function of the source looks at what a call returns, so each one performs a fixed list
  of actions, stopping at the first call that raises.
\<close>

datatype action = Call call | Say string

fun run :: "('s, 'e) graphiti \<Rightarrow> action list \<Rightarrow> ('s, 'e) coroutine" where
  "run g [] = skip"
| "run g (Call c # as) = then_do (await g c) (run g as)"
| "run g (Say l # as) = then_do (print l) (run g as)"

fun calls_of :: "action list \<Rightarrow> call list" where
  "calls_of [] = []"
| "calls_of (Call c # as) = c # calls_of as"
| "calls_of (Say l # as) = calls_of as"

fun says_of :: "action list \<Rightarrow> string list" where
  "says_of [] = []"
| "says_of (Call c # as) = says_of as"
| "says_of (Say l # as) = l # says_of as"

definition edge_script :: "string \<times> string \<Rightarrow> action list" where
  "edge_script e = [Call (edge_call e), Say (edge_line e)]"

definition project_script :: "SoftwareProject \<Rightarrow> action list" where
  "project_script project =
     [Call (AddEntity (SoftwareProject.name project) ''software_project''
             (SoftwareProject.description project)
             (exclude_none (dump_SoftwareProject project))),
      Say (glyph_added @ '' Added project: '' @ SoftwareProject.name project)]"

definition feature_script :: "string \<Rightarrow> Feature \<Rightarrow> action list" where
  "feature_script project_name feature =
     [Call (AddEntity (Feature.name feature) ''feature'' (Feature.description feature)
               (exclude_none (dump_Feature feature))),
      Call (AddRelationship project_name (Feature.name feature) ''has_feature''
               (project_name @ '' includes the '' @ Feature.name feature @ '' feature'')),
      Say (''  '' @ glyph_added @ '' Added feature: '' @ Feature.name feature)]"

definition component_script :: "string \<Rightarrow> Component \<Rightarrow> action list" where
  "component_script project_name component =
     [Call (AddEntity (Component.name component) ''component''
               (Component.description component)
               (exclude_none (dump_Component component))),
      Call (AddRelationship project_name (Component.name component) ''has_component''
               (project_name @ '' contains the '' @ Component.name component @ '' component'')),
      Say (''  '' @ glyph_added @ '' Added component: '' @ Component.name component)]"

text \<open>
  How a run of a script ended: \<open>pre\<close> is the part of the script that was reached, \<open>post\<close>
  the rest. The calls of \<open>pre\<close> were issued and its lines printed. Either everything ran
  and every call returned; or the last call of \<open>pre\<close> raised, the calls before it having
  returned; or the first action of \<open>post\<close> is a line that the stream refused, every call
  of \<open>pre\<close> having returned.
\<close>

definition run_result ::
  "('s, 'e) graphiti \<Rightarrow> ('s, 'e) world \<Rightarrow> action list \<Rightarrow> action list \<Rightarrow>
   ('s, 'e) world \<Rightarrow> 'e option \<Rightarrow> bool" where
  "run_result g w pre post w' r =
     (issued w' = issued w @ calls_of pre
      \<and> console w' = console w @ says_of pre
      \<and> stdout w' = stdout w
      \<and> prints_return (stdout w) (console w) (says_of pre)
      \<and> (case r of
            None \<Rightarrow> post = [] \<and> replay g (calls_of pre) (store w) = Some (store w')
          | Some e \<Rightarrow>
              (\<exists>pre' c s. pre = pre' @ [Call c]
                 \<and> replay g (calls_of pre') (store w) = Some s
                 \<and> g c s = (store w', Some e))
              \<or> (\<exists>l post'. post = Say l # post'
                 \<and> replay g (calls_of pre) (store w) = Some (store w')
                 \<and> stdout w (console w') l = Some e)))"

text \<open>
  How a dependency pass over the edge list \<open>E\<close> ended. Returned: every edge has had its
  call and its line. Raised: for some edge \<open>x\<close>, the edges before it have had their call and
  their line, the call for \<open>x\<close> was issued, and either that call raised, or it returned and
  the line for \<open>x\<close> was refused by the stream. The stream itself is never replaced.
\<close>

definition pass_result ::
  "('s, 'e) graphiti \<Rightarrow> ('s, 'e) world \<Rightarrow> (string \<times> string) list \<Rightarrow>
   ('s, 'e) world \<Rightarrow> 'e option \<Rightarrow> bool" where
  "pass_result g w E w' r =
     (stdout w' = stdout w
      \<and> (case r of
            None \<Rightarrow> issued w' = issued w @ map edge_call E
               \<and> console w' = console w @ map edge_line E
               \<and> replay g (map edge_call E) (store w) = Some (store w')
               \<and> prints_return (stdout w) (console w) (map edge_line E)
          | Some e \<Rightarrow> \<exists>pre x post s. E = pre @ x # post
               \<and> issued w' = issued w @ map edge_call (pre @ [x])
               \<and> console w' = console w @ map edge_line pre
               \<and> replay g (map edge_call pre) (store w) = Some s
               \<and> prints_return (stdout w) (console w) (map edge_line pre)
               \<and> (g (edge_call x) s = (store w', Some e)
                    \<or> g (edge_call x) s = (store w', None)
                      \<and> stdout w (console w') (edge_line x) = Some e)))"

subsection \<open>Two clients and the scenarios of the specification\<close>

text \<open>
  A client whose store is the list of the calls it accepted: \<open>log_client\<close> accepts every
  call; \<open>quota_client n\<close> accepts \<open>n\<close> calls and raises on every later one, writing nothing.
\<close>

definition log_client :: "(call list, string) graphiti" where
  "log_client c s = (s @ [c], None)"

definition quota_client :: "nat \<Rightarrow> (call list, string) graphiti" where
  "quota_client n c s = (if length s < n then (s @ [c], None) else (s, Some ''store error''))"

text \<open>
  Two streams: \<open>utf8_stdout\<close> takes every line; \<open>ascii_stdout\<close> raises on a line with a
  byte outside ASCII, as a stream with an ASCII encoding does.
\<close>

definition utf8_stdout :: "string stdout" where
  "utf8_stdout con line = None"

definition ascii_stdout :: "string stdout" where
  "ascii_stdout con line =
     (if list_all (\<lambda>c. \<not> digit7 c) line then None else Some ''UnicodeEncodeError'')"


definition scenario2 :: "Component list" where
  "scenario2 = [ new_Component ''A'' None None None (Some [''A'']) None ]"



subsection \<open>The whole sequence, and a small project\<close>

definition population_script ::
  "SoftwareProject \<Rightarrow> Feature list \<Rightarrow> Component list \<Rightarrow> action list" where
  "population_script project features components =
     project_script project
     @ concat (map (feature_script (SoftwareProject.name project)) features)
     @ concat (map (component_script (SoftwareProject.name project)) components)
     @ concat (map edge_script (projected_edges components))"

definition example_project :: SoftwareProject where
  "example_project = new_SoftwareProject ''P'' None None None None None None None"

definition example_feature :: Feature where
  "example_feature = new_Feature ''F'' None None None None"

definition defaulted_components :: "Component list" where
  "defaulted_components =
     [ new_Component ''A'' None None None None None,
       new_Component ''B'' None None None (Some [''A'']) None ]"

section \<open>Every function runs a script\<close>

lemma then_do_skip_left: "then_do skip k = k"
  by (rule ext) (simp add: then_do_def skip_def)

lemma then_do_skip_right: "then_do m skip = m"
  by (rule ext) (simp add: then_do_def skip_def split: prod.splits option.splits)

lemma then_do_assoc: "then_do (then_do a b) c = then_do a (then_do b c)"
  by (rule ext) (simp add: then_do_def split: prod.splits option.splits)

lemma run_append: "run g (xs @ ys) = then_do (run g xs) (run g ys)"
proof (induction xs)
  case Nil
  show ?case by (simp add: then_do_skip_left)
next
  case (Cons a xs)
  then show ?case by (cases a) (simp_all add: then_do_assoc)
qed

lemma for_each_run:
  assumes "\<And>x. x \<in> set xs \<Longrightarrow> body x = run g (script x)"
  shows "for_each body xs = run g (concat (map script xs))"
  using assms by (induction xs) (simp_all add: run_append)

lemma calls_of_append: "calls_of (xs @ ys) = calls_of xs @ calls_of ys"
  by (induction xs rule: calls_of.induct) simp_all

lemma says_of_append: "says_of (xs @ ys) = says_of xs @ says_of ys"
  by (induction xs rule: says_of.induct) simp_all

lemma replay_append:
  "replay g (xs @ ys) s = (case replay g xs s of None \<Rightarrow> None | Some s' \<Rightarrow> replay g ys s')"
proof (induction xs arbitrary: s)
  case Nil
  show ?case by simp
next
  case (Cons c xs)
  obtain s1 r1 where "g c s = (s1, r1)" by (cases "g c s")
  then show ?case using Cons.IH[of s1] by (cases r1) simp_all
qed

lemma prints_return_append:
  "prints_return out con (xs @ ys) =
     (prints_return out con xs \<and> prints_return out (con @ xs) ys)"
  by (induction xs arbitrary: con) simp_all

lemma run_result_Nil: "run_result g w [] [] w None"
  by (simp add: run_result_def)

lemma run_result_Say_raised:
  assumes "stdout w (console w) l = Some e"
  shows "run_result g w [] (Say l # post) w (Some e)"
  using assms by (simp add: run_result_def)

lemma run_result_Call_raised:
  assumes "g c (store w) = (s1, Some e)"
  shows "run_result g w [Call c] post (w\<lparr>store := s1, issued := issued w @ [c]\<rparr>) (Some e)"
proof -
  have "[Call c] = [] @ [Call c] \<and> replay g (calls_of []) (store w) = Some (store w)
          \<and> g c (store w) = (s1, Some e)"
    using assms by simp
  then have "\<exists>pre' ca s. [Call c] = pre' @ [Call ca]
          \<and> replay g (calls_of pre') (store w) = Some s \<and> g ca s = (s1, Some e)"
    by blast
  then show ?thesis by (simp add: run_result_def)
qed

lemma run_result_Say:
  assumes "stdout w (console w) l = None"
      and "run_result g (w\<lparr>console := console w @ [l]\<rparr>) pre post w' r"
  shows "run_result g w (Say l # pre) post w' r"
proof (cases r)
  case None
  with assms show ?thesis by (simp add: run_result_def)
next
  case (Some e)
  note A = assms(2)[unfolded run_result_def Some option.case]
  have D:
    "(\<exists>pre' c s. pre = pre' @ [Call c]
         \<and> replay g (calls_of pre') (store w) = Some s
         \<and> g c s = (store w', Some e))
     \<or> (\<exists>l' post'. post = Say l' # post'
         \<and> replay g (calls_of pre) (store w) = Some (store w')
         \<and> stdout w (console w') l' = Some e)"
    using A[THEN conjunct2, THEN conjunct2, THEN conjunct2, THEN conjunct2] by simp
  have "(\<exists>pre' c s. Say l # pre = pre' @ [Call c]
                 \<and> replay g (calls_of pre') (store w) = Some s
                 \<and> g c s = (store w', Some e))
              \<or> (\<exists>l' post'. post = Say l' # post'
                 \<and> replay g (calls_of (Say l # pre)) (store w) = Some (store w')
                 \<and> stdout w (console w') l' = Some e)"
    using D
  proof (elim disjE exE conjE)
    fix pre' c s
    assume "pre = pre' @ [Call c]" "replay g (calls_of pre') (store w) = Some s"
      "g c s = (store w', Some e)"
    then have "Say l # pre = (Say l # pre') @ [Call c]
                 \<and> replay g (calls_of (Say l # pre')) (store w) = Some s
                 \<and> g c s = (store w', Some e)" by simp
    then show ?thesis by blast
  next
    fix l' post'
    assume "post = Say l' # post'" "replay g (calls_of pre) (store w) = Some (store w')"
      "stdout w (console w') l' = Some e"
    then show ?thesis by simp
  qed
  moreover from assms have "issued w' = issued w @ calls_of (Say l # pre)"
    "console w' = console w @ says_of (Say l # pre)" "stdout w' = stdout w"
    "prints_return (stdout w) (console w) (says_of (Say l # pre))"
    by (simp_all add: run_result_def)
  ultimately show ?thesis unfolding run_result_def Some by simp
qed

lemma run_result_Call:
  assumes "g c (store w) = (s1, None)"
      and "run_result g (w\<lparr>store := s1, issued := issued w @ [c]\<rparr>) pre post w' r"
  shows "run_result g w (Call c # pre) post w' r"
proof (cases r)
  case None
  with assms show ?thesis by (simp add: run_result_def)
next
  case (Some e)
  note A = assms(2)[unfolded run_result_def Some option.case]
  have D:
    "(\<exists>pre' c' s. pre = pre' @ [Call c']
         \<and> replay g (calls_of pre') s1 = Some s
         \<and> g c' s = (store w', Some e))
     \<or> (\<exists>l' post'. post = Say l' # post'
         \<and> replay g (calls_of pre) s1 = Some (store w')
         \<and> stdout w (console w') l' = Some e)"
    using A[THEN conjunct2, THEN conjunct2, THEN conjunct2, THEN conjunct2] by simp
  have "(\<exists>pre' c' s. Call c # pre = pre' @ [Call c']
                 \<and> replay g (calls_of pre') (store w) = Some s
                 \<and> g c' s = (store w', Some e))
              \<or> (\<exists>l' post'. post = Say l' # post'
                 \<and> replay g (calls_of (Call c # pre)) (store w) = Some (store w')
                 \<and> stdout w (console w') l' = Some e)"
    using D
  proof (elim disjE exE conjE)
    fix pre' c' s
    assume "pre = pre' @ [Call c']" "replay g (calls_of pre') s1 = Some s"
      "g c' s = (store w', Some e)"
    then have "Call c # pre = (Call c # pre') @ [Call c']
                 \<and> replay g (calls_of (Call c # pre')) (store w) = Some s
                 \<and> g c' s = (store w', Some e)" using assms(1) by simp
    then show ?thesis by blast
  next
    fix l' post'
    assume "post = Say l' # post'" "replay g (calls_of pre) s1 = Some (store w')"
      "stdout w (console w') l' = Some e"
    then show ?thesis using assms(1) by simp
  qed
  moreover from assms have "issued w' = issued w @ calls_of (Call c # pre)"
    "console w' = console w @ says_of (Call c # pre)" "stdout w' = stdout w"
    "prints_return (stdout w) (console w) (says_of (Call c # pre))"
    by (simp_all add: run_result_def)
  ultimately show ?thesis unfolding run_result_def Some by simp
qed

lemma run_prefix:
  "run g as w = (w', r) \<Longrightarrow> \<exists>pre post. as = pre @ post \<and> run_result g w pre post w' r"
proof (induction as arbitrary: w)
  case Nil
  then have "w' = w" "r = None" by (simp_all add: skip_def)
  then have "run_result g w [] [] w' r" by (simp only: run_result_Nil)
  moreover have "[] = ([] :: action list) @ []" by simp
  ultimately show ?case by (intro exI conjI)
next
  case (Cons a as)
  show ?case
  proof (cases a)
    case (Say l)
    show ?thesis
    proof (cases "stdout w (console w) l")
      case (Some e)
      with Cons.prems Say have "w' = w" "r = Some e"
        by (simp_all add: then_do_def print_def)
      with run_result_Say_raised[where g = g and post = as, OF Some]
      have "run_result g w [] (Say l # as) w' r" by (simp only:)
      moreover have "a # as = [] @ (Say l # as)" using Say by simp
      ultimately show ?thesis by (intro exI conjI)
    next
      case None
      with Cons.prems Say have "run g as (w\<lparr>console := console w @ [l]\<rparr>) = (w', r)"
        by (simp add: then_do_def print_def)
      from Cons.IH[OF this] obtain pre post where
        P: "as = pre @ post" "run_result g (w\<lparr>console := console w @ [l]\<rparr>) pre post w' r"
        by (elim exE conjE)
      have "run_result g w (Say l # pre) post w' r"
        by (rule run_result_Say[where g = g and w = w, OF None P(2)])
      moreover have "a # as = (Say l # pre) @ post" using Say P(1) by simp
      ultimately show ?thesis by (intro exI conjI)
    qed
  next
    case (Call c)
    obtain s1 r1 where G: "g c (store w) = (s1, r1)" by (cases "g c (store w)")
    show ?thesis
    proof (cases r1)
      case (Some e)
      with Cons.prems Call G have "w' = w\<lparr>store := s1, issued := issued w @ [c]\<rparr>" "r = Some e"
        by (simp_all add: then_do_def await_def)
      with run_result_Call_raised[where g = g and c = c and w = w and post = as, OF G[unfolded Some]]
      have "run_result g w [Call c] as w' r" by (simp only:)
      moreover have "a # as = [Call c] @ as" using Call by simp
      ultimately show ?thesis by (intro exI conjI)
    next
      case None
      with Cons.prems Call G
      have "run g as (w\<lparr>store := s1, issued := issued w @ [c]\<rparr>) = (w', r)"
        by (simp add: then_do_def await_def)
      from Cons.IH[OF this] obtain pre post where
        P: "as = pre @ post"
           "run_result g (w\<lparr>store := s1, issued := issued w @ [c]\<rparr>) pre post w' r"
        by (elim exE conjE)
      have "run_result g w (Call c # pre) post w' r"
        by (rule run_result_Call[where g = g and c = c and w = w, OF G[unfolded None] P(2)])
      moreover have "a # as = (Call c # pre) @ post" using Call P(1) by simp
      ultimately show ?thesis by (intro exI conjI)
    qed
  qed
qed

lemma populate_project_run: "populate_project g p = run g (project_script p)"
  by (simp add: populate_project_def project_script_def then_do_skip_right)

lemma populate_features_run:
  "populate_features g pn fs = run g (concat (map (feature_script pn) fs))"
  unfolding populate_features_def
  by (rule for_each_run) (simp add: feature_script_def then_do_skip_right)

lemma populate_components_run:
  "populate_components g pn cs = run g (concat (map (component_script pn) cs))"
  unfolding populate_components_def
  by (rule for_each_run) (simp add: component_script_def then_do_skip_right)

lemma concat_map_singletons:
  "concat (map f (concat (map (\<lambda>x. if P x then [h x] else []) xs))) =
   concat (map (\<lambda>x. if P x then f (h x) else []) xs)"
  by (induction xs) simp_all

lemma add_component_dependencies_run:
  "add_component_dependencies g cs = run g (concat (map edge_script (projected_edges cs)))"
proof -
  let ?N = "set (map Component.name cs)"
  let ?inner = "\<lambda>c. concat (map (\<lambda>d. if d \<in> ?N then edge_script (Component.name c, d) else [])
                    (Component.dependencies c))"
  have inner: "for_each (\<lambda>dep.
          if dep \<in> ?N then
            then_do
              (await g
                 (AddRelationship (Component.name c) dep ''depends_on''
                    (Component.name c @ '' depends on '' @ dep)))
              (print (''  '' @ glyph_link @ '' '' @ Component.name c @ '' '' @
                      glyph_arrow @ '' depends_on '' @ glyph_arrow @ '' '' @ dep))
          else skip)
          (Component.dependencies c) = run g (?inner c)" for c :: Component
    by (rule for_each_run)
       (simp add: edge_script_def edge_call_def edge_line_def then_do_skip_right)
  have "add_component_dependencies g cs = run g (concat (map ?inner cs))"
    unfolding add_component_dependencies_def Let_def
    by (rule for_each_run) (rule inner)
  also have "concat (map ?inner cs) = concat (map edge_script (projected_edges cs))"
  proof -
    have "concat (map (\<lambda>c. concat (map (\<lambda>d. if d \<in> N
                  then edge_script (Component.name c, d) else [])
                    (Component.dependencies c))) xs) =
          concat (map edge_script
            [(Component.name c, d). c \<leftarrow> xs, d \<leftarrow> Component.dependencies c, d \<in> N])"
      for N and xs :: "Component list"
      by (induction xs) (simp_all add: concat_map_singletons)
    then show ?thesis unfolding projected_edges_def .
  qed
  finally show ?thesis .
qed

section \<open>What the dependency pass does\<close>

lemma run_edge_script_Cons:
  "run g (concat (map edge_script (x # E))) =
     then_do (await g (edge_call x))
       (then_do (print (edge_line x)) (run g (concat (map edge_script E))))"
  by (simp add: edge_script_def)

lemma pass_result_Nil: "pass_result g w [] w None"
  by (simp add: pass_result_def)

lemma pass_result_raised:
  assumes "g (edge_call x) (store w) = (s1, r1)"
      and "r1 = Some e \<or> r1 = None \<and> stdout w (console w) (edge_line x) = Some e"
  shows "pass_result g w (x # E) (w\<lparr>store := s1, issued := issued w @ [edge_call x]\<rparr>) (Some e)"
proof -
  let ?w' = "w\<lparr>store := s1, issued := issued w @ [edge_call x]\<rparr>"
  have "x # E = [] @ x # E
      \<and> issued ?w' = issued w @ map edge_call ([] @ [x])
      \<and> console ?w' = console w @ map edge_line []
      \<and> replay g (map edge_call []) (store w) = Some (store w)
      \<and> prints_return (stdout w) (console w) (map edge_line [])
      \<and> (g (edge_call x) (store w) = (store ?w', Some e)
           \<or> g (edge_call x) (store w) = (store ?w', None)
             \<and> stdout w (console ?w') (edge_line x) = Some e)"
    using assms by auto
  then have "\<exists>pre y post s. x # E = pre @ y # post
      \<and> issued ?w' = issued w @ map edge_call (pre @ [y])
      \<and> console ?w' = console w @ map edge_line pre
      \<and> replay g (map edge_call pre) (store w) = Some s
      \<and> prints_return (stdout w) (console w) (map edge_line pre)
      \<and> (g (edge_call y) s = (store ?w', Some e)
           \<or> g (edge_call y) s = (store ?w', None)
             \<and> stdout w (console ?w') (edge_line y) = Some e)"
    by (intro exI)
  then show ?thesis unfolding pass_result_def by simp
qed

lemma pass_result_step:
  assumes G: "g (edge_call x) (store w) = (s1, None)"
      and P: "stdout w (console w) (edge_line x) = None"
      and R: "pass_result g
               (w\<lparr>store := s1, issued := issued w @ [edge_call x],
                   console := console w @ [edge_line x]\<rparr>) E w' r"
  shows "pass_result g w (x # E) w' r"
proof (cases r)
  case None
  with assms show ?thesis by (simp add: pass_result_def)
next
  case (Some e)
  note A = R[unfolded pass_result_def Some option.case]
  from A[THEN conjunct2] obtain pre y post s where
    B: "E = pre @ y # post"
       "issued w' = issued w @ [edge_call x] @ map edge_call (pre @ [y])"
       "console w' = console w @ [edge_line x] @ map edge_line pre"
       "replay g (map edge_call pre) s1 = Some s"
       "prints_return (stdout w) (console w @ [edge_line x]) (map edge_line pre)"
       "g (edge_call y) s = (store w', Some e)
          \<or> g (edge_call y) s = (store w', None)
            \<and> stdout w (console w') (edge_line y) = Some e"
    by auto
  have "x # E = (x # pre) @ y # post
      \<and> issued w' = issued w @ map edge_call ((x # pre) @ [y])
      \<and> console w' = console w @ map edge_line (x # pre)
      \<and> replay g (map edge_call (x # pre)) (store w) = Some s
      \<and> prints_return (stdout w) (console w) (map edge_line (x # pre))
      \<and> (g (edge_call y) s = (store w', Some e)
           \<or> g (edge_call y) s = (store w', None)
             \<and> stdout w (console w') (edge_line y) = Some e)"
    using B G P by simp
  then have "\<exists>pre y post s. x # E = pre @ y # post
      \<and> issued w' = issued w @ map edge_call (pre @ [y])
      \<and> console w' = console w @ map edge_line pre
      \<and> replay g (map edge_call pre) (store w) = Some s
      \<and> prints_return (stdout w) (console w) (map edge_line pre)
      \<and> (g (edge_call y) s = (store w', Some e)
           \<or> g (edge_call y) s = (store w', None)
             \<and> stdout w (console w') (edge_line y) = Some e)"
    by (intro exI)
  moreover from A[THEN conjunct1] have "stdout w' = stdout w" by simp
  ultimately show ?thesis unfolding pass_result_def Some by simp
qed

lemma run_edges:
  "run g (concat (map edge_script E)) w = (w', r) \<Longrightarrow> pass_result g w E w' r"
proof (induction E arbitrary: w)
  case Nil
  then have "w' = w" "r = None" by (simp_all add: skip_def)
  then show ?case by (simp only: pass_result_Nil)
next
  case (Cons x E)
  obtain s1 r1 where G: "g (edge_call x) (store w) = (s1, r1)"
    by (cases "g (edge_call x) (store w)")
  let ?w1 = "w\<lparr>store := s1, issued := issued w @ [edge_call x]\<rparr>"
  show ?case
  proof (cases "r1 = None \<and> stdout w (console w) (edge_line x) = None")
    case True
    with Cons.prems G
    have "run g (concat (map edge_script E))
            (w\<lparr>store := s1, issued := issued w @ [edge_call x],
                console := console w @ [edge_line x]\<rparr>) = (w', r)"
      unfolding run_edge_script_Cons by (simp add: then_do_def await_def print_def)
    from Cons.IH[OF this] G True show ?thesis
      by (intro pass_result_step[where g = g and w = w and ?s1.0 = s1]) simp_all
  next
    case False
    then obtain e where E:
      "r1 = Some e \<or> r1 = None \<and> stdout w (console w) (edge_line x) = Some e"
      by (cases r1; cases "stdout w (console w) (edge_line x)") auto
    with Cons.prems G have "w' = ?w1" "r = Some e"
      unfolding run_edge_script_Cons
      by (auto simp: then_do_def await_def print_def)
    with pass_result_raised[where g = g and w = w and x = x and E = E, OF G E]
    show ?thesis by (simp only:)
  qed
qed

lemma dependencies_outcome:
  assumes "add_component_dependencies g cs w = (w', r)"
  shows "pass_result g w (projected_edges cs) w' r"
  using assms unfolding add_component_dependencies_run by (rule run_edges)

lemma depends_on_edges_edge_calls: "depends_on_edges (map edge_call E) = E"
  by (induction E) (simp_all add: edge_call_def)

lemma dependencies_issued:
  "\<exists>k. issued (fst (add_component_dependencies g cs w)) =
          issued w @ map edge_call (take k (projected_edges cs))"
proof -
  obtain w' r where R: "add_component_dependencies g cs w = (w', r)"
    by (cases "add_component_dependencies g cs w")
  note D = dependencies_outcome[OF R, unfolded pass_result_def, THEN conjunct2]
  show ?thesis
  proof (cases r)
    case None
    with D have "issued w' = issued w @ map edge_call (take (length (projected_edges cs)) (projected_edges cs))"
      by simp
    then show ?thesis unfolding R by (simp only: fst_conv) blast
  next
    case (Some e)
    with D obtain pre x post where "projected_edges cs = pre @ x # post"
      "issued w' = issued w @ map edge_call (pre @ [x])" by auto
    then have "issued w' = issued w @ map edge_call (take (Suc (length pre)) (projected_edges cs))"
      by simp
    then show ?thesis unfolding R by (simp only: fst_conv) blast
  qed
qed

lemma emitted_take: "\<exists>k. emitted_edges g out cs s = take k (projected_edges cs)"
proof -
  obtain k where "issued (fst (add_component_dependencies g cs (start out s))) =
          issued (start out s) @ map edge_call (take k (projected_edges cs))"
    using dependencies_issued[of g cs "start out s"] by (elim exE)
  then have "emitted_edges g out cs s = take k (projected_edges cs)"
    by (simp add: emitted_edges_def start_def depends_on_edges_edge_calls)
  then show ?thesis ..
qed


lemma set_projected_edges:
  "set (projected_edges cs) =
     {(Component.name a, d) | a d. a \<in> set cs \<and> d \<in> set (Component.dependencies a)
        \<and> d \<in> Component.name ` set cs}"
  by (auto simp: projected_edges_def)





lemma inj_on_names: "distinct (map Component.name cs) \<Longrightarrow> inj_on Component.name (set cs)"
  by (simp add: distinct_map)



text \<open>
  With a client that never raises and a stream that takes every line, every script
  returns; so does the pass.
\<close>

lemma run_accepting:
  assumes "\<And>c s. snd (g c s) = None" and "\<And>con l. stdout w con l = None"
  shows "snd (run g as w) = None"
  using assms(2)
proof (induction as arbitrary: w)
  case Nil
  show ?case by (simp add: skip_def)
next
  case (Cons a as)
  show ?case
  proof (cases a)
    case (Call c)
    obtain s1 r1 where G: "g c (store w) = (s1, r1)" by (cases "g c (store w)")
    with assms(1)[of c "store w"] have "r1 = None" by simp
    moreover have "snd (run g as (w\<lparr>store := s1, issued := issued w @ [c]\<rparr>)) = None"
      by (rule Cons.IH) (simp add: Cons.prems)
    ultimately show ?thesis using G Call by (simp add: then_do_def await_def)
  next
    case (Say l)
    have "snd (run g as (w\<lparr>console := console w @ [l]\<rparr>)) = None"
      by (rule Cons.IH) (simp add: Cons.prems)
    with Say Cons.prems show ?thesis by (simp add: then_do_def print_def)
  qed
qed

lemma log_client_returns:
  "snd (add_component_dependencies log_client cs (start utf8_stdout s)) = None"
  unfolding add_component_dependencies_run
  by (rule run_accepting) (simp_all add: log_client_def start_def utf8_stdout_def)


lemma scenario2_run:
  "add_component_dependencies log_client scenario2 (start utf8_stdout []) =
     (\<lparr> store = [edge_call (''A'', ''A'')], issued = [edge_call (''A'', ''A'')],
        console = [edge_line (''A'', ''A'')], stdout = utf8_stdout \<rparr>, None)"
  by (simp add: add_component_dependencies_def scenario2_def new_Component_def then_do_def
        await_def print_def skip_def log_client_def start_def edge_call_def edge_line_def
        utf8_stdout_def)



section \<open>Properties of the dependency pass\<close>









section \<open>The population sequence\<close>

lemma population_sequence_run:
  "population_sequence g p fs cs = run g (population_script p fs cs)"
  by (simp add: population_sequence_def population_script_def run_append
        populate_project_run populate_features_run populate_components_run
        add_component_dependencies_run)

lemma run_issued:
  assumes "run g as w = (w', r)"
  shows "\<exists>pre post. as = pre @ post \<and> issued w' = issued w @ calls_of pre"
proof -
  from run_prefix[OF assms] obtain pre post where
    "as = pre @ post" "run_result g w pre post w' r" by (elim exE conjE)
  then have "as = pre @ post \<and> issued w' = issued w @ calls_of pre"
    by (simp add: run_result_def)
  then show ?thesis by (intro exI)
qed

lemma run_outcome:
  assumes "run g as w = (w', r)"
  shows "\<exists>tr. issued w' = issued w @ tr
           \<and> (case r of
                None \<Rightarrow> replay g tr (store w) = Some (store w')
              | Some e \<Rightarrow>
                  (\<exists>pre c s. tr = pre @ [c]
                     \<and> replay g pre (store w) = Some s
                     \<and> g c s = (store w', Some e))
                  \<or> (replay g tr (store w) = Some (store w')
                     \<and> (\<exists>l. stdout w (console w') l = Some e)))"
proof -
  from run_prefix[OF assms] obtain pre and post :: "action list" where
    R: "run_result g w pre post w' r" by (elim exE conjE)
  note A = R[unfolded run_result_def]
  from A have I: "issued w' = issued w @ calls_of pre" by (rule conjunct1)
  note B = A[THEN conjunct2, THEN conjunct2, THEN conjunct2, THEN conjunct2]
  have "case r of
                None \<Rightarrow> replay g (calls_of pre) (store w) = Some (store w')
              | Some e \<Rightarrow>
                  (\<exists>pre' c s. calls_of pre = pre' @ [c]
                     \<and> replay g pre' (store w) = Some s
                     \<and> g c s = (store w', Some e))
                  \<or> (replay g (calls_of pre) (store w) = Some (store w')
                     \<and> (\<exists>l. stdout w (console w') l = Some e))"
  proof (cases r)
    case None
    with B show ?thesis by simp
  next
    case (Some e)
    from B[unfolded Some option.case]
    have "(\<exists>pre' c s. calls_of pre = pre' @ [c]
                     \<and> replay g pre' (store w) = Some s
                     \<and> g c s = (store w', Some e))
                  \<or> (replay g (calls_of pre) (store w) = Some (store w')
                     \<and> (\<exists>l. stdout w (console w') l = Some e))"
    proof (elim disjE exE conjE)
      fix pre' c s
      assume "pre = pre' @ [Call c]" "replay g (calls_of pre') (store w) = Some s"
        "g c s = (store w', Some e)"
      then have "calls_of pre = calls_of pre' @ [c]
          \<and> replay g (calls_of pre') (store w) = Some s \<and> g c s = (store w', Some e)"
        by (simp add: calls_of_append)
      then show ?thesis by blast
    next
      fix l post'
      assume "replay g (calls_of pre) (store w) = Some (store w')"
        "stdout w (console w') l = Some e"
      then show ?thesis by blast
    qed
    then show ?thesis unfolding Some by (simp only: option.case)
  qed
  with I show ?thesis by (intro exI conjI)
qed

text \<open>
  Claim C5. In a run of the population sequence, a call that raises is the last call of
  the run: the calls awaited before it all returned, the run ends with the very exception
  the client raised (nothing catches it, nothing is retried), and the store is left as
  the client left it after those calls, with nothing undone. A run that returns has had
  every one of its calls return. The one other way for a run to end with an exception is
  a line that the stream refuses: every call issued has then returned and the store holds
  what they wrote. On a stream that takes every line, an exception is always that of the
  last call.
\<close>

theorem failure_propagates:
  assumes "population_sequence g p fs cs w = (w', r)"
  shows "\<exists>tr. issued w' = issued w @ tr
           \<and> (case r of
                None \<Rightarrow> replay g tr (store w) = Some (store w')
              | Some e \<Rightarrow>
                  (\<exists>pre c s. tr = pre @ [c]
                     \<and> replay g pre (store w) = Some s
                     \<and> g c s = (store w', Some e))
                  \<or> (replay g tr (store w) = Some (store w')
                     \<and> (\<exists>l. stdout w (console w') l = Some e)))
           \<and> ((\<forall>con l. stdout w con l = None) \<longrightarrow>
                (case r of
                   None \<Rightarrow> replay g tr (store w) = Some (store w')
                 | Some e \<Rightarrow> \<exists>pre c s. tr = pre @ [c]
                     \<and> replay g pre (store w) = Some s
                     \<and> g c s = (store w', Some e)))"
proof -
  from assms have "run g (population_script p fs cs) w = (w', r)"
    by (simp add: population_sequence_run)
  from run_outcome[OF this] obtain tr where
    T: "issued w' = issued w @ tr"
       "case r of
                None \<Rightarrow> replay g tr (store w) = Some (store w')
              | Some e \<Rightarrow>
                  (\<exists>pre c s. tr = pre @ [c]
                     \<and> replay g pre (store w) = Some s
                     \<and> g c s = (store w', Some e))
                  \<or> (replay g tr (store w) = Some (store w')
                     \<and> (\<exists>l. stdout w (console w') l = Some e))"
    by (elim exE conjE)
  have "(\<forall>con l. stdout w con l = None) \<longrightarrow>
                (case r of
                   None \<Rightarrow> replay g tr (store w) = Some (store w')
                 | Some e \<Rightarrow> \<exists>pre c s. tr = pre @ [c]
                     \<and> replay g pre (store w) = Some s
                     \<and> g c s = (store w', Some e))"
  proof
    assume H: "\<forall>con l. stdout w con l = None"
    show "case r of
                   None \<Rightarrow> replay g tr (store w) = Some (store w')
                 | Some e \<Rightarrow> \<exists>pre c s. tr = pre @ [c]
                     \<and> replay g pre (store w) = Some s
                     \<and> g c s = (store w', Some e)"
    proof (cases r)
      case None
      with T(2) show ?thesis by simp
    next
      case (Some e)
      from T(2)[unfolded Some option.case] H
      have "\<exists>pre c s. tr = pre @ [c]
                     \<and> replay g pre (store w) = Some s
                     \<and> g c s = (store w', Some e)"
        by (elim disjE) simp_all
      then show ?thesis unfolding Some by (simp only: option.case)
    qed
  qed
  with T show ?thesis by (intro exI conjI)
qed

lemma example_run:
  "population_sequence (quota_client 2) example_project [example_feature] scenario2
     (start utf8_stdout []) =
     (\<lparr> store = [AddEntity ''P'' ''software_project'' None
                    [(''name'', MStr ''P''), (''status'', MProjectStatus ACTIVE)],
                 AddEntity ''F'' ''feature'' None
                    [(''name'', MStr ''F''), (''status'', MFeatureStatus PLANNED)]],
        issued = [AddEntity ''P'' ''software_project'' None
                    [(''name'', MStr ''P''), (''status'', MProjectStatus ACTIVE)],
                  AddEntity ''F'' ''feature'' None
                    [(''name'', MStr ''F''), (''status'', MFeatureStatus PLANNED)],
                  AddRelationship ''P'' ''F'' ''has_feature'' ''P includes the F feature''],
        console = [glyph_added @ '' Added project: P''],
        stdout = utf8_stdout \<rparr>,
      Some ''store error'')"
  by (simp add: population_sequence_def populate_project_def populate_features_def
        populate_components_def add_component_dependencies_def
        example_project_def example_feature_def scenario2_def
        new_SoftwareProject_def new_Feature_def new_Component_def
        dump_SoftwareProject_def dump_Feature_def dump_Component_def exclude_none_def
        opt_value_def then_do_def await_def print_def skip_def quota_client_def start_def
        utf8_stdout_def)

theorem failure_propagates_witness:
  "snd (population_sequence (quota_client 2) example_project [example_feature] scenario2
          (start utf8_stdout [])) = Some ''store error''
   \<and> store (fst (population_sequence (quota_client 2) example_project [example_feature]
          scenario2 (start utf8_stdout []))) =
       [AddEntity ''P'' ''software_project'' None
          [(''name'', MStr ''P''), (''status'', MProjectStatus ACTIVE)],
        AddEntity ''F'' ''feature'' None
          [(''name'', MStr ''F''), (''status'', MFeatureStatus PLANNED)]]
   \<and> (\<exists>pre c s.
         issued (fst (population_sequence (quota_client 2) example_project [example_feature]
           scenario2 (start utf8_stdout []))) = pre @ [c]
         \<and> replay (quota_client 2) pre [] = Some s
         \<and> quota_client 2 c s = (s, Some ''store error''))"
proof -
  let ?W = "\<lparr> store = [AddEntity ''P'' ''software_project'' None
                    [(''name'', MStr ''P''), (''status'', MProjectStatus ACTIVE)],
                 AddEntity ''F'' ''feature'' None
                    [(''name'', MStr ''F''), (''status'', MFeatureStatus PLANNED)]],
        issued = [AddEntity ''P'' ''software_project'' None
                    [(''name'', MStr ''P''), (''status'', MProjectStatus ACTIVE)],
                  AddEntity ''F'' ''feature'' None
                    [(''name'', MStr ''F''), (''status'', MFeatureStatus PLANNED)],
                  AddRelationship ''P'' ''F'' ''has_feature'' ''P includes the F feature''],
        console = [glyph_added @ '' Added project: P''],
        stdout = utf8_stdout \<rparr>"
  have H: "\<forall>con l. stdout (start utf8_stdout []) con l = None"
    by (simp add: start_def utf8_stdout_def)
  have "\<exists>pre c s. issued ?W = pre @ [c]
         \<and> replay (quota_client 2) pre [] = Some s
         \<and> quota_client 2 c s = (s, Some ''store error'')"
    using failure_propagates[OF example_run]
  proof (elim exE conjE)
    fix tr
    assume T1: "issued ?W = issued (start utf8_stdout []) @ tr"
    assume T3: "(\<forall>con l. stdout (start utf8_stdout []) con l = None) \<longrightarrow>
         (case Some ''store error'' of
            None \<Rightarrow> replay (quota_client 2) tr (store (start utf8_stdout [])) = Some (store ?W)
          | Some e \<Rightarrow> \<exists>pre c s. tr = pre @ [c]
              \<and> replay (quota_client 2) pre (store (start utf8_stdout [])) = Some s
              \<and> quota_client 2 c s = (store ?W, Some e))"
    from T3 H have "case Some ''store error'' of
            None \<Rightarrow> replay (quota_client 2) tr (store (start utf8_stdout [])) = Some (store ?W)
          | Some e \<Rightarrow> \<exists>pre c s. tr = pre @ [c]
              \<and> replay (quota_client 2) pre (store (start utf8_stdout [])) = Some s
              \<and> quota_client 2 c s = (store ?W, Some e)"
      by (rule mp)
    then have "\<exists>pre c s. tr = pre @ [c]
              \<and> replay (quota_client 2) pre (store (start utf8_stdout [])) = Some s
              \<and> quota_client 2 c s = (store ?W, Some ''store error'')"
      by (simp only: option.case)
    then obtain pre c s where
      V: "tr = pre @ [c]" "replay (quota_client 2) pre (store (start utf8_stdout [])) = Some s"
         "quota_client 2 c s = (store ?W, Some ''store error'')"
      by (elim exE conjE)
    from V(3) have "quota_client 2 c s = (s, Some ''store error'')"
      by (simp add: quota_client_def split: if_splits)
    moreover from T1 V(1) have "issued ?W = pre @ [c]"
      by (simp add: start_def)
    moreover from V(2) have "replay (quota_client 2) pre [] = Some s"
      by (simp add: start_def)
    ultimately show ?thesis by (intro exI conjI)
  qed
  then show ?thesis
    unfolding example_run by (simp only: fst_conv snd_conv world.simps simp_thms)
qed

lemma registered_before_mono:
  "registered_before S xs \<Longrightarrow> S \<subseteq> T \<Longrightarrow> registered_before T xs"
proof (induction S xs arbitrary: T rule: registered_before.induct)
  case (1 seen)
  show ?case by simp
next
  case (2 seen n ty summ md cs)
  from 2(2,3) have "registered_before (insert n seen) cs" "insert n seen \<subseteq> insert n T"
    by auto
  then show ?case using 2(1) by simp
next
  case (3 seen a b rel f cs)
  then show ?case by auto
qed

lemma registered_before_append:
  "registered_before S (xs @ ys) =
     (registered_before S xs \<and> registered_before (S \<union> entity_names xs) ys)"
  by (induction S xs rule: registered_before.induct) auto

lemma registered_before_features:
  "pn \<in> S \<Longrightarrow> registered_before S (calls_of (concat (map (feature_script pn) fs)))"
  by (induction fs arbitrary: S) (simp_all add: feature_script_def)

lemma registered_before_components:
  "pn \<in> S \<Longrightarrow> registered_before S (calls_of (concat (map (component_script pn) cs)))"
  by (induction cs arbitrary: S) (simp_all add: component_script_def)

lemma entity_names_components:
  "entity_names (calls_of (concat (map (component_script pn) cs))) = Component.name ` set cs"
  by (induction cs) (simp_all add: component_script_def)

lemma calls_of_edge_scripts: "calls_of (concat (map edge_script E)) = map edge_call E"
  by (induction E) (simp_all add: edge_script_def)

lemma registered_before_edges:
  "fst ` set E \<subseteq> S \<Longrightarrow> snd ` set E \<subseteq> S \<Longrightarrow> registered_before S (map edge_call E)"
  by (induction E) (simp_all add: edge_call_def)

lemma registered_before_script:
  "registered_before {} (calls_of (population_script p fs cs))"
proof -
  let ?pn = "SoftwareProject.name p"
  let ?N = "Component.name ` set cs"
  have e: "fst ` set (projected_edges cs) \<subseteq> ?N" "snd ` set (projected_edges cs) \<subseteq> ?N"
    by (auto simp: set_projected_edges)
  have 1: "registered_before {?pn} (calls_of (concat (map (feature_script ?pn) fs)))"
    by (rule registered_before_features) simp
  have 2: "registered_before ({?pn} \<union> entity_names (calls_of (concat (map (feature_script ?pn) fs))))
             (calls_of (concat (map (component_script ?pn) cs)))"
    by (rule registered_before_components) simp
  have "registered_before ?N (map edge_call (projected_edges cs))"
    by (rule registered_before_edges[OF e])
  then have 3: "registered_before
        ({?pn} \<union> entity_names (calls_of (concat (map (feature_script ?pn) fs))) \<union> ?N)
        (map edge_call (projected_edges cs))"
    by (rule registered_before_mono) auto
  show ?thesis
    using 1 2 3
    by (simp add: population_script_def project_script_def calls_of_append
          registered_before_append entity_names_components calls_of_edge_scripts)
qed

text \<open>
  Claim C6. In every run of the population sequence, from a fresh world and with any
  client, each relationship call is issued after the entity calls for both of its ends;
  this holds for the calls of a run that was cut short by an exception too.
\<close>

theorem entities_precede_relationships:
  "registered_before {} (issued (fst (population_sequence g p fs cs (start out s))))"
proof -
  obtain w' r where R: "run g (population_script p fs cs) (start out s) = (w', r)"
    by (cases "run g (population_script p fs cs) (start out s)")
  from run_issued[OF R] obtain pre and post :: "action list" where
    P: "population_script p fs cs = pre @ post"
       "issued w' = issued (start out s) @ calls_of pre"
    by (elim exE conjE)
  from registered_before_script[of p fs cs] P(1)
  have "registered_before {} (calls_of pre)"
    by (simp add: calls_of_append registered_before_append)
  with P(2) R show ?thesis
    by (simp add: population_sequence_run start_def)
qed

theorem entities_precede_relationships_witness:
  "registered_before {}
     (issued (fst (population_sequence (quota_client 2) example_project [example_feature]
                     scenario2 (start utf8_stdout []))))
   \<and> issued (fst (population_sequence (quota_client 2) example_project [example_feature]
                     scenario2 (start utf8_stdout []))) =
       [AddEntity ''P'' ''software_project'' None
          [(''name'', MStr ''P''), (''status'', MProjectStatus ACTIVE)],
        AddEntity ''F'' ''feature'' None
          [(''name'', MStr ''F''), (''status'', MFeatureStatus PLANNED)],
        AddRelationship ''P'' ''F'' ''has_feature'' ''P includes the F feature'']"
proof -
  have a: "registered_before {}
     (issued (fst (population_sequence (quota_client 2) example_project [example_feature]
                     scenario2 (start utf8_stdout []))))"
    by (rule entities_precede_relationships)
  have b: "issued (fst (population_sequence (quota_client 2) example_project [example_feature]
                     scenario2 (start utf8_stdout []))) =
       [AddEntity ''P'' ''software_project'' None
          [(''name'', MStr ''P''), (''status'', MProjectStatus ACTIVE)],
        AddEntity ''F'' ''feature'' None
          [(''name'', MStr ''F''), (''status'', MFeatureStatus PLANNED)],
        AddRelationship ''P'' ''F'' ''has_feature'' ''P includes the F feature'']"
    by (simp add: example_run)
  from a b show ?thesis by (rule conjI)
qed

section \<open>Frame of the dependency pass, metadata and defaults\<close>

lemma run_trace:
  assumes "run g as w = (w', r)"
  shows "\<exists>tr. issued w' = issued w @ tr \<and> prefix tr (calls_of as)
           \<and> (r = None \<longrightarrow> tr = calls_of as)"
proof -
  from run_prefix[OF assms] obtain pre and post :: "action list" where
    P: "as = pre @ post" and R: "run_result g w pre post w' r" by (elim exE conjE)
  note A = R[unfolded run_result_def]
  from A have "issued w' = issued w @ calls_of pre" by (rule conjunct1)
  moreover from P have "prefix (calls_of pre) (calls_of as)"
    by (simp add: calls_of_append)
  moreover have "r = None \<longrightarrow> calls_of pre = calls_of as"
  proof
    assume "r = None"
    with A[THEN conjunct2, THEN conjunct2, THEN conjunct2, THEN conjunct2]
    have "post = []" by simp
    with P show "calls_of pre = calls_of as" by simp
  qed
  ultimately show ?thesis by (intro exI conjI)
qed

lemma run_issued_all:
  assumes "list_all P (calls_of as)"
  shows "\<exists>tr. issued (fst (run g as w)) = issued w @ tr \<and> list_all P tr"
proof -
  obtain w' r where R: "run g as w = (w', r)" by (cases "run g as w")
  from run_issued[OF R] obtain pre and post :: "action list" where
    P: "as = pre @ post" "issued w' = issued w @ calls_of pre"
    by (elim exE conjE)
  from assms P(1) have "list_all P (calls_of pre)" by (simp add: calls_of_append)
  with P(2) R show ?thesis by simp
qed

lemma edge_calls_depends_on: "list_all is_depends_on (map edge_call E)"
  by (induction E) (simp_all add: edge_call_def)

lemma edge_calls_no_entity: "entity_names (map edge_call E) = {}"
  by (induction E) (simp_all add: edge_call_def)

text \<open>
  Claim C8. Whatever the client and the input, the calls that the dependency pass adds to
  a run are relationship calls of type \<open>depends_on\<close>; none of them is an entity call.
\<close>

theorem only_depends_on_calls:
  "\<exists>tr. issued (fst (add_component_dependencies g cs w)) = issued w @ tr
        \<and> list_all is_depends_on tr \<and> entity_names tr = {}"
proof -
  obtain k where "issued (fst (add_component_dependencies g cs w)) =
          issued w @ map edge_call (take k (projected_edges cs))"
    using dependencies_issued[of g cs w] by (elim exE)
  moreover have "list_all is_depends_on (map edge_call (take k (projected_edges cs)))"
    by (rule edge_calls_depends_on)
  moreover have "entity_names (map edge_call (take k (projected_edges cs))) = {}"
    by (rule edge_calls_no_entity)
  ultimately show ?thesis by blast
qed

lemma exclude_none_free: "MNone \<notin> snd ` set (exclude_none d)"
  by (auto simp: exclude_none_def)

lemma calls_of_feature_scripts:
  "calls_of (concat (map (feature_script pn) fs)) =
     concat (map (\<lambda>f.
       [AddEntity (Feature.name f) ''feature'' (Feature.description f)
          (exclude_none (dump_Feature f)),
        AddRelationship pn (Feature.name f) ''has_feature''
          (pn @ '' includes the '' @ Feature.name f @ '' feature'')]) fs)"
  by (induction fs) (simp_all add: feature_script_def)

lemma calls_of_component_scripts:
  "calls_of (concat (map (component_script pn) cs)) =
     concat (map (\<lambda>c.
       [AddEntity (Component.name c) ''component'' (Component.description c)
          (exclude_none (dump_Component c)),
        AddRelationship pn (Component.name c) ''has_component''
          (pn @ '' contains the '' @ Component.name c @ '' component'')]) cs)"
  by (induction cs) (simp_all add: component_script_def)

lemma populate_project_issued:
  "issued (fst (populate_project g p w)) =
     issued w @ [AddEntity (SoftwareProject.name p) ''software_project''
                   (SoftwareProject.description p) (exclude_none (dump_SoftwareProject p))]"
  by (simp add: populate_project_def then_do_def await_def print_def
        split: prod.split option.split)

lemma script_trace:
  assumes "list_all P (calls_of as)"
  shows "\<exists>tr. issued (fst (run g as w)) = issued w @ tr \<and> prefix tr (calls_of as)
           \<and> (snd (run g as w) = None \<longrightarrow> tr = calls_of as) \<and> list_all P tr"
proof -
  obtain w' r where R: "run g as w = (w', r)" by (cases "run g as w")
  from run_trace[OF R] obtain tr where
    T: "issued w' = issued w @ tr" "prefix tr (calls_of as)" "r = None \<longrightarrow> tr = calls_of as"
    by (elim exE conjE)
  from T(2) obtain zs where "calls_of as = tr @ zs" by (auto simp: prefix_def)
  with assms have "list_all P tr" by simp
  with T have "issued w' = issued w @ tr \<and> prefix tr (calls_of as)
           \<and> (r = None \<longrightarrow> tr = calls_of as) \<and> list_all P tr"
    by (intro conjI)
  then show ?thesis unfolding R fst_conv snd_conv by (rule exI)
qed

text \<open>
  Claim C9. The metadata that \<open>populate_project\<close>, \<open>populate_features\<close> and
  \<open>populate_components\<close> pass with an entity is the dump of the record without its
  \<open>None\<close> fields. \<open>populate_project\<close> issues exactly one call, the entity of the project
  with that metadata. The calls of \<open>populate_features\<close> are an initial part of the list
  that has, for each feature in order, its entity with that metadata and then its
  relationship; they are the whole list when it returns; likewise for components. That
  metadata holds no \<open>None\<close> value, and its keys are the fields of the record in order, an
  optional field being present exactly when it is set.
\<close>

theorem metadata_none_free:
  "issued (fst (populate_project g p w)) =
     issued w @ [AddEntity (SoftwareProject.name p) ''software_project''
                   (SoftwareProject.description p) (exclude_none (dump_SoftwareProject p))]
   \<and> (\<exists>tr. issued (fst (populate_features g pn fs w)) = issued w @ tr
        \<and> prefix tr (concat (map (\<lambda>f.
             [AddEntity (Feature.name f) ''feature'' (Feature.description f)
                (exclude_none (dump_Feature f)),
              AddRelationship pn (Feature.name f) ''has_feature''
                (pn @ '' includes the '' @ Feature.name f @ '' feature'')]) fs))
        \<and> (snd (populate_features g pn fs w) = None \<longrightarrow>
             tr = concat (map (\<lambda>f.
               [AddEntity (Feature.name f) ''feature'' (Feature.description f)
                  (exclude_none (dump_Feature f)),
                AddRelationship pn (Feature.name f) ''has_feature''
                  (pn @ '' includes the '' @ Feature.name f @ '' feature'')]) fs))
        \<and> list_all none_free tr)
   \<and> (\<exists>tr. issued (fst (populate_components g pn cs w)) = issued w @ tr
        \<and> prefix tr (concat (map (\<lambda>c.
             [AddEntity (Component.name c) ''component'' (Component.description c)
                (exclude_none (dump_Component c)),
              AddRelationship pn (Component.name c) ''has_component''
                (pn @ '' contains the '' @ Component.name c @ '' component'')]) cs))
        \<and> (snd (populate_components g pn cs w) = None \<longrightarrow>
             tr = concat (map (\<lambda>c.
               [AddEntity (Component.name c) ''component'' (Component.description c)
                  (exclude_none (dump_Component c)),
                AddRelationship pn (Component.name c) ''has_component''
                  (pn @ '' contains the '' @ Component.name c @ '' component'')]) cs))
        \<and> list_all none_free tr)
   \<and> MNone \<notin> snd ` set (exclude_none (dump_SoftwareProject p))
   \<and> MNone \<notin> snd ` set (exclude_none (dump_Feature f))
   \<and> MNone \<notin> snd ` set (exclude_none (dump_Component c))
   \<and> map fst (exclude_none (dump_SoftwareProject p)) =
       ''name''
       # (if SoftwareProject.repo_url p = None then [] else [''repo_url''])
       @ (if SoftwareProject.language p = None then [] else [''language''])
       @ (if SoftwareProject.framework p = None then [] else [''framework''])
       @ (if SoftwareProject.version p = None then [] else [''version''])
       @ ''status''
       # (if SoftwareProject.description p = None then [] else [''description''])
       @ (if SoftwareProject.license p = None then [] else [''license''])
   \<and> map fst (exclude_none (dump_Feature f)) =
       ''name'' # ''status''
       # (if Feature.priority f = None then [] else [''priority''])
       @ (if Feature.release_version f = None then [] else [''release_version''])
       @ (if Feature.description f = None then [] else [''description''])
   \<and> map fst (exclude_none (dump_Component c)) =
       ''name''
       # (if Component.type c = None then [] else [''type''])
       @ (if Component.path c = None then [] else [''path''])
       @ (if Component.language c = None then [] else [''language''])
       @ ''dependencies''
       # (if Component.description c = None then [] else [''description''])"
proof (intro conjI)
  show "issued (fst (populate_project g p w)) =
     issued w @ [AddEntity (SoftwareProject.name p) ''software_project''
                   (SoftwareProject.description p) (exclude_none (dump_SoftwareProject p))]"
    by (rule populate_project_issued)
  have "list_all none_free (calls_of (concat (map (feature_script pn) fs)))"
    by (induction fs) (simp_all add: feature_script_def exclude_none_free)
  from script_trace[OF this, of g w]
  show "\<exists>tr. issued (fst (populate_features g pn fs w)) = issued w @ tr
        \<and> prefix tr (concat (map (\<lambda>f.
             [AddEntity (Feature.name f) ''feature'' (Feature.description f)
                (exclude_none (dump_Feature f)),
              AddRelationship pn (Feature.name f) ''has_feature''
                (pn @ '' includes the '' @ Feature.name f @ '' feature'')]) fs))
        \<and> (snd (populate_features g pn fs w) = None \<longrightarrow>
             tr = concat (map (\<lambda>f.
               [AddEntity (Feature.name f) ''feature'' (Feature.description f)
                  (exclude_none (dump_Feature f)),
                AddRelationship pn (Feature.name f) ''has_feature''
                  (pn @ '' includes the '' @ Feature.name f @ '' feature'')]) fs))
        \<and> list_all none_free tr"
    unfolding populate_features_run calls_of_feature_scripts .
  have "list_all none_free (calls_of (concat (map (component_script pn) cs)))"
    by (induction cs) (simp_all add: component_script_def exclude_none_free)
  from script_trace[OF this, of g w]
  show "\<exists>tr. issued (fst (populate_components g pn cs w)) = issued w @ tr
        \<and> prefix tr (concat (map (\<lambda>c.
             [AddEntity (Component.name c) ''component'' (Component.description c)
                (exclude_none (dump_Component c)),
              AddRelationship pn (Component.name c) ''has_component''
                (pn @ '' contains the '' @ Component.name c @ '' component'')]) cs))
        \<and> (snd (populate_components g pn cs w) = None \<longrightarrow>
             tr = concat (map (\<lambda>c.
               [AddEntity (Component.name c) ''component'' (Component.description c)
                  (exclude_none (dump_Component c)),
                AddRelationship pn (Component.name c) ''has_component''
                  (pn @ '' contains the '' @ Component.name c @ '' component'')]) cs))
        \<and> list_all none_free tr"
    unfolding populate_components_run calls_of_component_scripts .
  show "MNone \<notin> snd ` set (exclude_none (dump_SoftwareProject p))"
    by (rule exclude_none_free)
  show "MNone \<notin> snd ` set (exclude_none (dump_Feature f))"
    by (rule exclude_none_free)
  show "MNone \<notin> snd ` set (exclude_none (dump_Component c))"
    by (rule exclude_none_free)
  show "map fst (exclude_none (dump_SoftwareProject p)) =
       ''name''
       # (if SoftwareProject.repo_url p = None then [] else [''repo_url''])
       @ (if SoftwareProject.language p = None then [] else [''language''])
       @ (if SoftwareProject.framework p = None then [] else [''framework''])
       @ (if SoftwareProject.version p = None then [] else [''version''])
       @ ''status''
       # (if SoftwareProject.description p = None then [] else [''description''])
       @ (if SoftwareProject.license p = None then [] else [''license''])"
    by (simp add: exclude_none_def dump_SoftwareProject_def opt_value_def split: option.split)
  show "map fst (exclude_none (dump_Feature f)) =
       ''name'' # ''status''
       # (if Feature.priority f = None then [] else [''priority''])
       @ (if Feature.release_version f = None then [] else [''release_version''])
       @ (if Feature.description f = None then [] else [''description''])"
    by (simp add: exclude_none_def dump_Feature_def opt_value_def split: option.split)
  show "map fst (exclude_none (dump_Component c)) =
       ''name''
       # (if Component.type c = None then [] else [''type''])
       @ (if Component.path c = None then [] else [''path''])
       @ (if Component.language c = None then [] else [''language''])
       @ ''dependencies''
       # (if Component.description c = None then [] else [''description''])"
    by (simp add: exclude_none_def dump_Component_def opt_value_def split: option.split)
qed

lemma example_features_run:
  "populate_features log_client ''P'' [example_feature] (start utf8_stdout []) =
     (\<lparr> store = [AddEntity ''F'' ''feature'' None
                    [(''name'', MStr ''F''), (''status'', MFeatureStatus PLANNED)],
                 AddRelationship ''P'' ''F'' ''has_feature'' ''P includes the F feature''],
        issued = [AddEntity ''F'' ''feature'' None
                    [(''name'', MStr ''F''), (''status'', MFeatureStatus PLANNED)],
                  AddRelationship ''P'' ''F'' ''has_feature'' ''P includes the F feature''],
        console = [''  '' @ glyph_added @ '' Added feature: F''],
        stdout = utf8_stdout \<rparr>, None)"
  by (simp add: populate_features_def example_feature_def new_Feature_def dump_Feature_def
        exclude_none_def opt_value_def then_do_def await_def print_def skip_def
        log_client_def start_def utf8_stdout_def)

lemma example_components_run:
  "populate_components log_client ''P'' scenario2 (start utf8_stdout []) =
     (\<lparr> store = [AddEntity ''A'' ''component'' None
                    [(''name'', MStr ''A''), (''dependencies'', MStrList [''A''])],
                 AddRelationship ''P'' ''A'' ''has_component'' ''P contains the A component''],
        issued = [AddEntity ''A'' ''component'' None
                    [(''name'', MStr ''A''), (''dependencies'', MStrList [''A''])],
                  AddRelationship ''P'' ''A'' ''has_component'' ''P contains the A component''],
        console = [''  '' @ glyph_added @ '' Added component: A''],
        stdout = utf8_stdout \<rparr>, None)"
  by (simp add: populate_components_def scenario2_def new_Component_def dump_Component_def
        exclude_none_def opt_value_def then_do_def await_def print_def skip_def
        log_client_def start_def utf8_stdout_def)

theorem metadata_none_free_witness:
  "snd (populate_features log_client ''P'' [example_feature] (start utf8_stdout [])) = None
   \<and> snd (populate_components log_client ''P'' scenario2 (start utf8_stdout [])) = None
   \<and> issued (fst (populate_features log_client ''P'' [example_feature] (start utf8_stdout []))) =
       concat (map (\<lambda>f.
         [AddEntity (Feature.name f) ''feature'' (Feature.description f)
            (exclude_none (dump_Feature f)),
          AddRelationship ''P'' (Feature.name f) ''has_feature''
            (''P'' @ '' includes the '' @ Feature.name f @ '' feature'')]) [example_feature])
   \<and> issued (fst (populate_components log_client ''P'' scenario2 (start utf8_stdout []))) =
       concat (map (\<lambda>c.
         [AddEntity (Component.name c) ''component'' (Component.description c)
            (exclude_none (dump_Component c)),
          AddRelationship ''P'' (Component.name c) ''has_component''
            (''P'' @ '' contains the '' @ Component.name c @ '' component'')]) scenario2)
   \<and> exclude_none (dump_Feature example_feature) =
       [(''name'', MStr ''F''), (''status'', MFeatureStatus PLANNED)]"
proof -
  have hf: "snd (populate_features log_client ''P'' [example_feature] (start utf8_stdout []))
              = None"
    by (simp add: example_features_run)
  have hc: "snd (populate_components log_client ''P'' scenario2 (start utf8_stdout [])) = None"
    by (simp add: example_components_run)
  note T = metadata_none_free[where g = log_client and pn = "''P''"
             and fs = "[example_feature]" and cs = scenario2 and w = "start utf8_stdout []"]
  have f: "issued (fst (populate_features log_client ''P'' [example_feature]
              (start utf8_stdout []))) =
       concat (map (\<lambda>f.
         [AddEntity (Feature.name f) ''feature'' (Feature.description f)
            (exclude_none (dump_Feature f)),
          AddRelationship ''P'' (Feature.name f) ''has_feature''
            (''P'' @ '' includes the '' @ Feature.name f @ '' feature'')]) [example_feature])"
    using T[THEN conjunct2, THEN conjunct1]
  proof (elim exE conjE)
    fix tr
    assume 1: "issued (fst (populate_features log_client ''P'' [example_feature]
                 (start utf8_stdout []))) = issued (start utf8_stdout []) @ tr"
    assume 2: "snd (populate_features log_client ''P'' [example_feature]
                 (start utf8_stdout [])) = None \<longrightarrow>
       tr = concat (map (\<lambda>f.
         [AddEntity (Feature.name f) ''feature'' (Feature.description f)
            (exclude_none (dump_Feature f)),
          AddRelationship ''P'' (Feature.name f) ''has_feature''
            (''P'' @ '' includes the '' @ Feature.name f @ '' feature'')]) [example_feature])"
    from 2 hf have "tr = concat (map (\<lambda>f.
         [AddEntity (Feature.name f) ''feature'' (Feature.description f)
            (exclude_none (dump_Feature f)),
          AddRelationship ''P'' (Feature.name f) ''has_feature''
            (''P'' @ '' includes the '' @ Feature.name f @ '' feature'')]) [example_feature])"
      by (rule mp)
    with 1 show ?thesis by (simp add: start_def)
  qed
  have c: "issued (fst (populate_components log_client ''P'' scenario2
              (start utf8_stdout []))) =
       concat (map (\<lambda>c.
         [AddEntity (Component.name c) ''component'' (Component.description c)
            (exclude_none (dump_Component c)),
          AddRelationship ''P'' (Component.name c) ''has_component''
            (''P'' @ '' contains the '' @ Component.name c @ '' component'')]) scenario2)"
    using T[THEN conjunct2, THEN conjunct2, THEN conjunct1]
  proof (elim exE conjE)
    fix tr
    assume 1: "issued (fst (populate_components log_client ''P'' scenario2
                 (start utf8_stdout []))) = issued (start utf8_stdout []) @ tr"
    assume 2: "snd (populate_components log_client ''P'' scenario2
                 (start utf8_stdout [])) = None \<longrightarrow>
       tr = concat (map (\<lambda>c.
         [AddEntity (Component.name c) ''component'' (Component.description c)
            (exclude_none (dump_Component c)),
          AddRelationship ''P'' (Component.name c) ''has_component''
            (''P'' @ '' contains the '' @ Component.name c @ '' component'')]) scenario2)"
    from 2 hc have "tr = concat (map (\<lambda>c.
         [AddEntity (Component.name c) ''component'' (Component.description c)
            (exclude_none (dump_Component c)),
          AddRelationship ''P'' (Component.name c) ''has_component''
            (''P'' @ '' contains the '' @ Component.name c @ '' component'')]) scenario2)"
      by (rule mp)
    with 1 show ?thesis by (simp add: start_def)
  qed
  have m: "exclude_none (dump_Feature example_feature) =
       [(''name'', MStr ''F''), (''status'', MFeatureStatus PLANNED)]"
    by (simp add: example_feature_def new_Feature_def dump_Feature_def exclude_none_def
          opt_value_def)
  show ?thesis by (intro conjI hf hc f c m)
qed

lemma emitted_subset: "set (emitted_edges g out cs s) \<subseteq> set (projected_edges cs)"
proof -
  obtain k where "emitted_edges g out cs s = take k (projected_edges cs)"
    using emitted_take[of g out cs s] by (elim exE)
  then show ?thesis by (simp add: set_take_subset)
qed

text \<open>
  Claim C10. A project constructed without a status is \<open>ACTIVE\<close>, whose value is the
  string "active"; a feature constructed without a status is \<open>PLANNED\<close>, whose value is
  "planned"; a component constructed without dependencies has the
  empty list, and among components with unique names no emitted edge has such a component
  as its source.
\<close>

theorem constructor_defaults:
  "SoftwareProject.status (new_SoftwareProject n repo lang fw ver None descr lic) = ACTIVE
   \<and> ProjectStatus_value
         (SoftwareProject.status (new_SoftwareProject n repo lang fw ver None descr lic)) =
       ''active''
   \<and> Feature.status (new_Feature n None prio rel descr) = PLANNED
   \<and> FeatureStatus_value (Feature.status (new_Feature n None prio rel descr)) = ''planned''
   \<and> Component.dependencies (new_Component n ty pth lang None descr) = []
   \<and> (distinct (map Component.name cs) \<and> new_Component n ty pth lang None descr \<in> set cs
        \<longrightarrow> n \<notin> fst ` set (emitted_edges g out cs s))"
proof (intro conjI impI)
  show "SoftwareProject.status (new_SoftwareProject n repo lang fw ver None descr lic) = ACTIVE"
    by (simp add: new_SoftwareProject_def)
  show "Feature.status (new_Feature n None prio rel descr) = PLANNED"
    by (simp add: new_Feature_def)
  show "ProjectStatus_value
         (SoftwareProject.status (new_SoftwareProject n repo lang fw ver None descr lic)) =
       ''active''"
    by (simp add: new_SoftwareProject_def)
  show "FeatureStatus_value (Feature.status (new_Feature n None prio rel descr)) = ''planned''"
    by (simp add: new_Feature_def)
  show "Component.dependencies (new_Component n ty pth lang None descr) = []"
    by (simp add: new_Component_def)
  let ?c = "new_Component n ty pth lang None descr"
  assume A: "distinct (map Component.name cs) \<and> ?c \<in> set cs"
  show "n \<notin> fst ` set (emitted_edges g out cs s)"
  proof
    assume "n \<in> fst ` set (emitted_edges g out cs s)"
    then obtain d where "(n, d) \<in> set (projected_edges cs)"
      using emitted_subset[of g out cs s] by auto
    then obtain a where a: "a \<in> set cs" "Component.name a = n"
      "d \<in> set (Component.dependencies a)"
      by (auto simp: set_projected_edges)
    have "Component.name ?c = n" by (simp add: new_Component_def)
    with a(1,2) A have "a = ?c" using inj_on_names[of cs] by (auto dest: inj_onD)
    with a(3) show False by (simp add: new_Component_def)
  qed
qed

lemma defaulted_run:
  "add_component_dependencies log_client defaulted_components (start utf8_stdout []) =
     (\<lparr> store = [edge_call (''B'', ''A'')], issued = [edge_call (''B'', ''A'')],
        console = [edge_line (''B'', ''A'')], stdout = utf8_stdout \<rparr>, None)"
  by (simp add: add_component_dependencies_def defaulted_components_def new_Component_def
        then_do_def await_def print_def skip_def log_client_def start_def edge_call_def
        edge_line_def utf8_stdout_def)

theorem constructor_defaults_witness:
  "distinct (map Component.name defaulted_components)
   \<and> new_Component ''A'' None None None None None \<in> set defaulted_components
   \<and> emitted_edges log_client utf8_stdout defaulted_components [] = [(''B'', ''A'')]
   \<and> ''A'' \<notin> fst ` set (emitted_edges log_client utf8_stdout defaulted_components [])"
proof -
  have d: "distinct (map Component.name defaulted_components)"
    by (simp add: defaulted_components_def new_Component_def)
  have m: "new_Component ''A'' None None None None None \<in> set defaulted_components"
    by (simp add: defaulted_components_def)
  have e: "emitted_edges log_client utf8_stdout defaulted_components [] = [(''B'', ''A'')]"
    by (simp add: emitted_edges_def defaulted_run edge_call_def)
  note T = constructor_defaults[where n = "''A''" and ty = None and pth = None and lang = None
             and descr = None and cs = defaulted_components and g = log_client and out = utf8_stdout
             and s = "[]"]
  from T[THEN conjunct2, THEN conjunct2, THEN conjunct2, THEN conjunct2, THEN conjunct2,
         rule_format, OF conjI[OF d m]] d m e
  show ?thesis by blast
qed

section \<open>Effects of the dependency pass\<close>

lemma scenario2_refused:
  "add_component_dependencies (quota_client 0) scenario2 (start utf8_stdout []) =
     (\<lparr> store = [], issued = [edge_call (''A'', ''A'')], console = [],
        stdout = utf8_stdout \<rparr>,
      Some ''store error'')"
  by (simp add: add_component_dependencies_def scenario2_def new_Component_def then_do_def
        await_def print_def skip_def quota_client_def start_def edge_call_def)

lemma scenario2_ascii:
  "add_component_dependencies log_client scenario2 (start ascii_stdout []) =
     (\<lparr> store = [edge_call (''A'', ''A'')], issued = [edge_call (''A'', ''A'')],
        console = [], stdout = ascii_stdout \<rparr>,
      Some ''UnicodeEncodeError'')"
  by (simp add: add_component_dependencies_def scenario2_def new_Component_def then_do_def
        await_def print_def skip_def log_client_def start_def edge_call_def
        ascii_stdout_def glyph_link_def glyph_arrow_def)

text \<open>
  Claim C7 says that the dependency pass raises nothing, returns normally on every input
  and performs no I/O. In the source the pass itself awaits the client and prints. On the
  single component A depending on A: with a client that refuses every call the pass ends
  with the client's exception; with a client that accepts every call it leaves a line on
  the console and a relationship in the store; and with that client on a stream that
  encodes ASCII only it ends with the exception of its own \<open>print\<close>, whose line is not
  ASCII.
\<close>

theorem dependency_pass_not_pure:
  "snd (add_component_dependencies (quota_client 0) scenario2 (start utf8_stdout []))
     = Some ''store error''
   \<and> console (fst (add_component_dependencies log_client scenario2 (start utf8_stdout [])))
        \<noteq> console (start utf8_stdout [])
   \<and> store (fst (add_component_dependencies log_client scenario2 (start utf8_stdout [])))
        \<noteq> store (start utf8_stdout [])
   \<and> snd (add_component_dependencies log_client scenario2 (start ascii_stdout []))
     = Some ''UnicodeEncodeError''"
  unfolding scenario2_refused scenario2_run scenario2_ascii by (simp add: start_def)

text \<open>
  Claim C7, amended. What the pass does is determined by the edge list, which is computed
  from the components alone. It returns normally exactly when every \<open>add_relationship\<close>
  call for that list returns and every line for that list can be printed; it has then
  awaited one call per edge, in order, and printed one line per edge. Otherwise it ends
  with an exception at some edge: the edges before it have had their call and their line,
  the call for that edge has been issued and nothing after it, and the exception is the
  one that this call raised or, the call having returned, the one that \<open>print\<close> raised on
  the line of that edge. The store is changed by those calls only and the stream is left
  in place. The pass is a total function, so it always terminates.
\<close>

theorem dependency_pass_effects:
  assumes "add_component_dependencies g cs w = (w', r)"
  shows "(r = None) =
           (replay g (map edge_call (projected_edges cs)) (store w) \<noteq> None
            \<and> prints_return (stdout w) (console w) (map edge_line (projected_edges cs)))
       \<and> stdout w' = stdout w
       \<and> (case r of
            None \<Rightarrow> issued w' = issued w @ map edge_call (projected_edges cs)
               \<and> console w' = console w @ map edge_line (projected_edges cs)
               \<and> replay g (map edge_call (projected_edges cs)) (store w) = Some (store w')
               \<and> prints_return (stdout w) (console w) (map edge_line (projected_edges cs))
          | Some e \<Rightarrow> \<exists>pre x post s. projected_edges cs = pre @ x # post
               \<and> issued w' = issued w @ map edge_call (pre @ [x])
               \<and> console w' = console w @ map edge_line pre
               \<and> replay g (map edge_call pre) (store w) = Some s
               \<and> prints_return (stdout w) (console w) (map edge_line pre)
               \<and> (g (edge_call x) s = (store w', Some e)
                    \<or> g (edge_call x) s = (store w', None)
                      \<and> stdout w (console w') (edge_line x) = Some e))"
proof (intro conjI)
  note D = dependencies_outcome[OF assms, unfolded pass_result_def]
  show "stdout w' = stdout w" using D by (rule conjunct1)
  show C: "case r of
            None \<Rightarrow> issued w' = issued w @ map edge_call (projected_edges cs)
               \<and> console w' = console w @ map edge_line (projected_edges cs)
               \<and> replay g (map edge_call (projected_edges cs)) (store w) = Some (store w')
               \<and> prints_return (stdout w) (console w) (map edge_line (projected_edges cs))
          | Some e \<Rightarrow> \<exists>pre x post s. projected_edges cs = pre @ x # post
               \<and> issued w' = issued w @ map edge_call (pre @ [x])
               \<and> console w' = console w @ map edge_line pre
               \<and> replay g (map edge_call pre) (store w) = Some s
               \<and> prints_return (stdout w) (console w) (map edge_line pre)
               \<and> (g (edge_call x) s = (store w', Some e)
                    \<or> g (edge_call x) s = (store w', None)
                      \<and> stdout w (console w') (edge_line x) = Some e)"
    using D by (rule conjunct2)
  show "(r = None) =
           (replay g (map edge_call (projected_edges cs)) (store w) \<noteq> None
            \<and> prints_return (stdout w) (console w) (map edge_line (projected_edges cs)))"
  proof (cases r)
    case None
    with C show ?thesis by simp
  next
    case (Some e)
    from C[unfolded Some option.case] obtain pre x post s where
      E: "projected_edges cs = pre @ x # post"
         "console w' = console w @ map edge_line pre"
         "replay g (map edge_call pre) (store w) = Some s"
         "g (edge_call x) s = (store w', Some e)
            \<or> g (edge_call x) s = (store w', None)
              \<and> stdout w (console w') (edge_line x) = Some e"
      by (elim exE conjE)
    from E(4) have "replay g (map edge_call (projected_edges cs)) (store w) = None
        \<or> \<not> prints_return (stdout w) (console w) (map edge_line (projected_edges cs))"
    proof
      assume "g (edge_call x) s = (store w', Some e)"
      with E(1,3) have "replay g (map edge_call (projected_edges cs)) (store w) = None"
        by (simp add: replay_append)
      then show ?thesis ..
    next
      assume "g (edge_call x) s = (store w', None)
              \<and> stdout w (console w') (edge_line x) = Some e"
      with E(1,2)
      have "\<not> prints_return (stdout w) (console w) (map edge_line (projected_edges cs))"
        by (simp add: prints_return_append)
      then show ?thesis ..
    qed
    with Some show ?thesis by auto
  qed
qed

theorem dependency_pass_effects_witness:
  "snd (add_component_dependencies log_client scenario2 (start ascii_stdout []))
     = Some ''UnicodeEncodeError''
   \<and> issued (fst (add_component_dependencies log_client scenario2 (start ascii_stdout [])))
     = [edge_call (''A'', ''A'')]
   \<and> replay log_client (map edge_call (projected_edges scenario2)) [] \<noteq> None
   \<and> \<not> prints_return ascii_stdout [] (map edge_line (projected_edges scenario2))"
proof -
  have r: "replay log_client (map edge_call (projected_edges scenario2)) [] \<noteq> None"
    by (simp add: projected_edges_def scenario2_def new_Component_def log_client_def)
  from dependency_pass_effects[OF scenario2_ascii, THEN conjunct1] r
  have "\<not> prints_return ascii_stdout [] (map edge_line (projected_edges scenario2))"
    by (simp add: start_def)
  with r show ?thesis unfolding scenario2_ascii by simp
qed

end
